theory Spec2Isabelle
  imports Main
begin

section \<open>Python text primitives\<close>

text \<open>
  A Python \<open>str\<close> is modelled as a \<open>string\<close>: one \<open>char\<close> per code point, for the
  code points 0 to 255. The classification of characters below is the one CPython gives
  to these code points (\<open>str.isspace\<close>, \<open>str.isdigit\<close>, \<open>str.lower\<close>, and the
  classes \<open>\d\<close>, \<open>\s\<close>, \<open>\w\<close> of \<open>re\<close> on \<open>str\<close> patterns).
\<close>

definition is_space :: "char \<Rightarrow> bool" where
  \<comment> \<open>\<open>str.isspace\<close> and \<open>\s\<close>: TAB..CR, FS..US, SPACE, NEL, NBSP\<close>
  "is_space c = (let n = (of_char c :: nat) in
     (9 \<le> n \<and> n \<le> 13) \<or> (28 \<le> n \<and> n \<le> 32) \<or> n = 133 \<or> n = 160)"

definition is_decimal :: "char \<Rightarrow> bool" where
  \<comment> \<open>\<open>\d\<close>: the decimal digits\<close>
  "is_decimal c = (let n = (of_char c :: nat) in 48 \<le> n \<and> n \<le> 57)"

definition is_digit :: "char \<Rightarrow> bool" where
  \<comment> \<open>\<open>str.isdigit\<close> on one character: the decimal digits and the superscripts 1, 2, 3\<close>
  "is_digit c = (let n = (of_char c :: nat) in
     (48 \<le> n \<and> n \<le> 57) \<or> n = 178 \<or> n = 179 \<or> n = 185)"

definition is_word :: "char \<Rightarrow> bool" where
  \<comment> \<open>\<open>\w\<close>: alphanumeric (\<open>str.isalnum\<close>) or underscore\<close>
  "is_word c = (let n = (of_char c :: nat) in
     (48 \<le> n \<and> n \<le> 57) \<or> (65 \<le> n \<and> n \<le> 90) \<or> n = 95 \<or> (97 \<le> n \<and> n \<le> 122)
     \<or> n = 170 \<or> n = 178 \<or> n = 179 \<or> n = 181 \<or> n = 185 \<or> n = 186
     \<or> n = 188 \<or> n = 189 \<or> n = 190
     \<or> (192 \<le> n \<and> n \<le> 214) \<or> (216 \<le> n \<and> n \<le> 246) \<or> (248 \<le> n \<and> n \<le> 255))"

definition lower_char :: "char \<Rightarrow> char" where
  "lower_char c = (let n = (of_char c :: nat) in
     if (65 \<le> n \<and> n \<le> 90) \<or> (192 \<le> n \<and> n \<le> 222 \<and> n \<noteq> 215)
     then char_of (n + 32) else c)"

definition lower :: "string \<Rightarrow> string" where
  "lower s = map lower_char s"

definition lstrip :: "string \<Rightarrow> string" where
  "lstrip s = dropWhile is_space s"

definition rstrip :: "string \<Rightarrow> string" where
  "rstrip s = rev (dropWhile is_space (rev s))"

definition strip :: "string \<Rightarrow> string" where
  "strip s = lstrip (rstrip s)"

definition isdigit :: "string \<Rightarrow> bool" where
  \<comment> \<open>\<open>str.isdigit\<close>: at least one character, all of them digits\<close>
  "isdigit s = (s \<noteq> [] \<and> list_all is_digit s)"

definition all_decimal :: "string \<Rightarrow> bool" where
  \<comment> \<open>a non-empty string of the characters 0 to 9\<close>
  "all_decimal s = (s \<noteq> [] \<and> list_all is_decimal s)"

definition match_digits :: "string \<Rightarrow> bool" where
  \<comment> \<open>\<open>re.match(r'^\d+$', s)\<close>: \<open>$\<close> also matches before one final newline\<close>
  "match_digits s = (all_decimal s \<or> (s \<noteq> [] \<and> last s = CHR 0x0A \<and> all_decimal (butlast s)))"

subsection \<open>Decimal rendering of integers\<close>

definition digit_char :: "nat \<Rightarrow> char" where
  "digit_char d = char_of (48 + d)"

fun str_nat :: "nat \<Rightarrow> string" where
  "str_nat n = (if n < 10 then [digit_char n] else str_nat (n div 10) @ [digit_char (n mod 10)])"

declare str_nat.simps [simp del]

definition str_int :: "int \<Rightarrow> string" where
  "str_int i = (if i < 0 then CHR ''-'' # str_nat (nat (- i)) else str_nat (nat i))"

section \<open>Python values\<close>

text \<open>
  The values a decoded reply or a table cell can hold: \<open>None\<close>, booleans, integers,
  floats and text. A float is represented by what the program observes of it: whether it
  is NaN, whether it is zero, and otherwise the text \<open>str\<close> gives for it.
\<close>

datatype pyfloat = FNaN | FZero bool | FOther string

datatype pyval = PNone | PBool bool | PInt int | PFloat pyfloat | PStr string

fun str_float :: "pyfloat \<Rightarrow> string" where
  "str_float FNaN = ''nan''"
| "str_float (FZero neg) = (if neg then ''-0.0'' else ''0.0'')"
| "str_float (FOther s) = s"

fun py_str :: "pyval \<Rightarrow> string" where
  "py_str PNone = ''None''"
| "py_str (PBool b) = (if b then ''True'' else ''False'')"
| "py_str (PInt i) = str_int i"
| "py_str (PFloat f) = str_float f"
| "py_str (PStr s) = s"

fun truthy :: "pyval \<Rightarrow> bool" where
  "truthy PNone = False"
| "truthy (PBool b) = b"
| "truthy (PInt i) = (i \<noteq> 0)"
| "truthy (PFloat FNaN) = True"
| "truthy (PFloat (FZero neg)) = False"
| "truthy (PFloat (FOther s)) = True"
| "truthy (PStr s) = (s \<noteq> [])"

fun pd_isna :: "pyval \<Rightarrow> bool" where
  "pd_isna PNone = True"
| "pd_isna (PFloat FNaN) = True"
| "pd_isna v = False"

fun is_str :: "pyval \<Rightarrow> bool" where
  "is_str (PStr s) = True"
| "is_str v = False"

section \<open>DataFormatter\<close>

subsection \<open>normalize_value\<close>

definition normalize_value :: "pyval \<Rightarrow> string" where
  "normalize_value v =
     (if pd_isna v \<or> v = PStr '''' then ''''
      else let value_str = lower (strip (py_str v)) in
        if value_str \<in> set [''yes'', ''y'', ''true'', ''1''] then ''1''
        else if value_str \<in> set [''no'', ''n'', ''false'', ''0''] then ''''
        else if value_str \<noteq> [] \<and> value_str \<noteq> ''nan'' then
          (if match_digits value_str then value_str else ''1'')
        else '''')"

subsection \<open>The quantity branch of process_results\<close>

definition english_to_number :: "(string \<times> string) list" where
  "english_to_number =
     [(''zero'', ''0''), (''one'', ''1''), (''two'', ''2''), (''three'', ''3''), (''four'', ''4''),
      (''five'', ''5''), (''six'', ''6''), (''seven'', ''7''), (''eight'', ''8''), (''nine'', ''9''),
      (''ten'', ''10''), (''eleven'', ''11''), (''twelve'', ''12''), (''thirteen'', ''13''),
      (''fourteen'', ''14''), (''fifteen'', ''15''), (''sixteen'', ''16''),
      (''seventeen'', ''17''), (''eighteen'', ''18''), (''nineteen'', ''19''),
      (''twenty'', ''20''), (''thirty'', ''30''), (''forty'', ''40''), (''fifty'', ''50''),
      (''sixty'', ''60''), (''seventy'', ''70''), (''eighty'', ''80''), (''ninety'', ''90'')]"

definition process_number :: "pyval \<Rightarrow> string" where
  "process_number v =
     (if truthy v \<and> isdigit (strip (py_str v)) then strip (py_str v)
      else if truthy v \<and> is_str v then
        (let value_lower = lower (strip (py_str v)) in
           case map_of english_to_number value_lower of
             Some d \<Rightarrow> d
           | None \<Rightarrow> strip (py_str v))
      else '''')"

section \<open>Regular expressions\<close>

text \<open>
  The patterns of the program use literals, character classes, sequence, ordered
  alternation, greedy optional parts, greedy counted repetition of a character class,
  groups, the word boundary and the start anchor. \<open>rmatch\<close> returns every way a pattern
  matches at the current position, in the order in which the backtracking matcher of
  \<open>re\<close> tries them; the first one is the match \<open>re.match\<close> reports.
\<close>

datatype regex =
    Eps
  | Lit "char \<Rightarrow> bool"
  | Seq regex regex
  | Alt regex regex
  | Opt regex
  | Rep "char \<Rightarrow> bool" nat "nat option"
  | Grp string regex
  | WordB
  | Bol

record mstate =
  prev :: "char option"
  rest :: string
  groups :: "(string \<times> string) list"

definition word_before :: "mstate \<Rightarrow> bool" where
  "word_before st = (case prev st of None \<Rightarrow> False | Some c \<Rightarrow> is_word c)"

definition word_after :: "mstate \<Rightarrow> bool" where
  "word_after st = (case rest st of [] \<Rightarrow> False | c # cs \<Rightarrow> is_word c)"

definition advance :: "mstate \<Rightarrow> nat \<Rightarrow> mstate" where
  "advance st k = (if k = 0 then st
     else st\<lparr>prev := Some (rest st ! (k - 1)), rest := drop k (rest st)\<rparr>)"

definition rep_counts :: "(char \<Rightarrow> bool) \<Rightarrow> nat \<Rightarrow> nat option \<Rightarrow> string \<Rightarrow> nat list" where
  "rep_counts p lo hi s =
     (let run = length (takeWhile p s);
          top = (case hi of None \<Rightarrow> run | Some h \<Rightarrow> min h run)
      in rev [lo ..< Suc top])"

primrec rmatch :: "regex \<Rightarrow> mstate \<Rightarrow> mstate list" where
  "rmatch Eps st = [st]"
| "rmatch (Lit p) st =
     (case rest st of [] \<Rightarrow> [] | c # cs \<Rightarrow> if p c then [advance st 1] else [])"
| "rmatch (Seq a b) st = concat (map (rmatch b) (rmatch a st))"
| "rmatch (Alt a b) st = rmatch a st @ rmatch b st"
| "rmatch (Opt a) st = rmatch a st @ [st]"
| "rmatch (Rep p lo hi) st = map (advance st) (rep_counts p lo hi (rest st))"
| "rmatch (Grp name a) st =
     map (\<lambda>st'. st'\<lparr>groups := (name, take (length (rest st) - length (rest st')) (rest st)) # groups st'\<rparr>)
       (rmatch a st)"
| "rmatch WordB st = (if word_before st \<noteq> word_after st then [st] else [])"
| "rmatch Bol st = (if prev st = None then [st] else [])"

definition re_match :: "regex \<Rightarrow> string \<Rightarrow> mstate option" where
  "re_match r s = (case rmatch r \<lparr>prev = None, rest = s, groups = []\<rparr> of
      [] \<Rightarrow> None | st # sts \<Rightarrow> Some st)"

fun seqs :: "regex list \<Rightarrow> regex" where
  "seqs [] = Eps"
| "seqs [r] = r"
| "seqs (r # rs) = Seq r (seqs rs)"

definition chr :: "char \<Rightarrow> regex" where
  "chr x = Lit (\<lambda>c. c = x)"

definition lit :: "string \<Rightarrow> regex" where
  "lit s = seqs (map chr s)"

fun re_search_from :: "regex \<Rightarrow> char option \<Rightarrow> string \<Rightarrow> mstate option" where
  "re_search_from r p [] = (case rmatch r \<lparr>prev = p, rest = [], groups = []\<rparr> of
      [] \<Rightarrow> None | st # sts \<Rightarrow> Some st)"
| "re_search_from r p (c # cs) = (case rmatch r \<lparr>prev = p, rest = c # cs, groups = []\<rparr> of
      [] \<Rightarrow> re_search_from r (Some c) cs | st # sts \<Rightarrow> Some st)"

definition re_search :: "regex \<Rightarrow> string \<Rightarrow> mstate option" where
  "re_search r s = re_search_from r None s"

definition grp :: "mstate \<Rightarrow> string \<Rightarrow> string" where
  "grp st name = (case map_of (groups st) name of None \<Rightarrow> [] | Some g \<Rightarrow> g)"

subsection \<open>The patterns of format_date\<close>

definition digits1 :: regex where "digits1 = Rep is_decimal 1 None"
definition digits4 :: regex where "digits4 = Rep is_decimal 4 (Some 4)"
definition word1 :: regex where "word1 = Rep is_word 1 None"

definition special_format :: regex where
  "special_format = seqs
     [Grp ''1'' digits1, Alt (lit ''st'') (Alt (lit ''nd'') (Alt (lit ''rd'') (lit ''th''))),
      lit '' of '', Grp ''2'' word1, Opt (chr CHR '',''), chr CHR '' '', Grp ''3'' digits4]"

definition dot_format :: regex where
  "dot_format = seqs
     [Grp ''1'' digits1, chr CHR ''.'', Grp ''2'' word1, chr CHR ''.'', Grp ''3'' digits4]"

definition comma_format :: regex where
  "comma_format = seqs
     [Grp ''1'' digits1, chr CHR '' '', Grp ''2'' word1, lit '', '', Grp ''3'' digits4]"

definition weekday_pattern :: regex where
  "weekday_pattern = seqs
     [Grp ''1'' word1, chr CHR '' '', Grp ''2'' digits1, chr CHR '' '', Grp ''3'' word1,
      chr CHR '' '', Grp ''4'' digits4]"

subsection \<open>datetime.strptime and strftime\<close>

text \<open>
  \<open>datetime.strptime\<close> as CPython implements it: the format is translated to a pattern
  (a run of whitespace to \<open>\s+\<close>, a directive to its group, any other character to
  itself), the pattern is matched without regard to case at the start of the text, the
  match must reach the end of the text, and the groups must give a valid date; every
  failure is a \<open>ValueError\<close>, here \<open>None\<close>. Only the directives of the formats of the
  program are translated; month names are the English ones. Without a year directive the
  year is 1900. \<open>strftime('%Y-%m-%d')\<close> is taken to pad the year to four digits.
\<close>

definition chr_i :: "char \<Rightarrow> regex" where
  "chr_i x = Lit (\<lambda>c. lower_char c = lower_char x)"

definition lit_i :: "string \<Rightarrow> regex" where
  "lit_i s = seqs (map chr_i s)"

fun alts :: "regex list \<Rightarrow> regex" where
  "alts [] = Eps"
| "alts [r] = r"
| "alts (r # rs) = Alt r (alts rs)"

definition rng :: "char \<Rightarrow> char \<Rightarrow> regex" where
  "rng a b = Lit (\<lambda>c. (of_char a :: nat) \<le> of_char c \<and> (of_char c :: nat) \<le> of_char b)"

definition f_month :: "string list" where
  "f_month = ['''', ''january'', ''february'', ''march'', ''april'', ''may'', ''june'', ''july'',
     ''august'', ''september'', ''october'', ''november'', ''december'']"

definition a_month :: "string list" where
  "a_month = ['''', ''jan'', ''feb'', ''mar'', ''apr'', ''may'', ''jun'', ''jul'', ''aug'', ''sep'',
     ''oct'', ''nov'', ''dec'']"

definition seq_to_re :: "string list \<Rightarrow> regex" where
  "seq_to_re names = alts (map lit_i (rev (sort_key length (rev names))))"

fun directive :: "char \<Rightarrow> regex option" where
  "directive c =
    (if c = CHR ''d'' then Some (Grp ''d'' (alts
        [Seq (chr CHR ''3'') (rng CHR ''0'' CHR ''1''), Seq (rng CHR ''1'' CHR ''2'') (Lit is_decimal),
         Seq (chr CHR ''0'') (rng CHR ''1'' CHR ''9''), rng CHR ''1'' CHR ''9'',
         Seq (chr CHR '' '') (rng CHR ''1'' CHR ''9'')]))
     else if c = CHR ''m'' then Some (Grp ''m'' (alts
        [Seq (chr CHR ''1'') (rng CHR ''0'' CHR ''2''), Seq (chr CHR ''0'') (rng CHR ''1'' CHR ''9''),
         rng CHR ''1'' CHR ''9'']))
     else if c = CHR ''Y'' then Some (Grp ''Y'' (Rep is_decimal 4 (Some 4)))
     else if c = CHR ''y'' then Some (Grp ''y'' (Rep is_decimal 2 (Some 2)))
     else if c = CHR ''B'' then Some (Grp ''B'' (seq_to_re (tl f_month)))
     else if c = CHR ''b'' then Some (Grp ''b'' (seq_to_re (tl a_month)))
     else None)"

fun time_re_from :: "bool \<Rightarrow> string \<Rightarrow> regex option" where
  "time_re_from sp [] = Some Eps"
| "time_re_from sp (c # cs) =
    (if c = CHR 0x25 then
       (case cs of [] \<Rightarrow> None
        | d # ds \<Rightarrow> (case directive d of None \<Rightarrow> None
            | Some r \<Rightarrow> (case time_re_from False ds of None \<Rightarrow> None | Some k \<Rightarrow> Some (Seq r k))))
     else if is_space c then
       (case time_re_from True cs of None \<Rightarrow> None
        | Some k \<Rightarrow> Some (if sp then k else Seq (Rep is_space 1 None) k))
     else (case time_re_from False cs of None \<Rightarrow> None | Some k \<Rightarrow> Some (Seq (chr_i c) k)))"

definition time_re :: "string \<Rightarrow> regex option" where
  "time_re fmt = time_re_from False fmt"

record date =
  year :: nat
  month :: nat
  day :: nat

definition int_of :: "string \<Rightarrow> nat" where
  "int_of s = foldl (\<lambda>n c. 10 * n + (of_char c - 48)) 0 (strip s)"

definition is_leap :: "nat \<Rightarrow> bool" where
  "is_leap y = (y mod 4 = 0 \<and> (y mod 100 \<noteq> 0 \<or> y mod 400 = 0))"

definition days_in_month :: "nat \<Rightarrow> nat \<Rightarrow> nat" where
  "days_in_month y m =
     (if m = 2 then (if is_leap y then 29 else 28)
      else if m \<in> {4, 6, 9, 11} then 30 else 31)"

definition valid_date :: "nat \<Rightarrow> nat \<Rightarrow> nat \<Rightarrow> bool" where
  "valid_date y m d = (1 \<le> y \<and> y \<le> 9999 \<and> 1 \<le> m \<and> m \<le> 12 \<and> 1 \<le> d \<and> d \<le> days_in_month y m)"

fun index_of :: "'a list \<Rightarrow> 'a \<Rightarrow> nat option" where
  "index_of [] x = None"
| "index_of (y # ys) x = (if x = y then Some 0 else map_option Suc (index_of ys x))"

definition has_grp :: "mstate \<Rightarrow> string \<Rightarrow> bool" where
  "has_grp st name = (map_of (groups st) name \<noteq> None)"

definition found_year :: "mstate \<Rightarrow> nat" where
  "found_year st =
     (if has_grp st ''Y'' then int_of (grp st ''Y'')
      else if has_grp st ''y'' then
        (let y = int_of (grp st ''y'') in if y \<le> 68 then y + 2000 else y + 1900)
      else 1900)"

definition found_month :: "mstate \<Rightarrow> nat" where
  "found_month st =
     (if has_grp st ''m'' then int_of (grp st ''m'')
      else if has_grp st ''B'' then
        (case index_of f_month (lower (grp st ''B'')) of None \<Rightarrow> 0 | Some i \<Rightarrow> i)
      else if has_grp st ''b'' then
        (case index_of a_month (lower (grp st ''b'')) of None \<Rightarrow> 0 | Some i \<Rightarrow> i)
      else 1)"

definition found_day :: "mstate \<Rightarrow> nat" where
  "found_day st = (if has_grp st ''d'' then int_of (grp st ''d'') else 1)"

definition strptime :: "string \<Rightarrow> string \<Rightarrow> date option" where
  "strptime data_string fmt =
     (case time_re fmt of None \<Rightarrow> None
      | Some r \<Rightarrow>
         (case re_match r data_string of None \<Rightarrow> None
          | Some found \<Rightarrow>
              if rest found \<noteq> [] then None
              else let y = found_year found; m = found_month found; d = found_day found
                   in if valid_date y m d then Some \<lparr>year = y, month = m, day = d\<rparr> else None))"

definition zfill :: "nat \<Rightarrow> string \<Rightarrow> string" where
  "zfill w s = replicate (w - length s) CHR ''0'' @ s"

definition strftime :: "date \<Rightarrow> string" where
  "strftime d = zfill 4 (str_nat (year d)) @ ''-'' @ zfill 2 (str_nat (month d)) @ ''-''
     @ zfill 2 (str_nat (day d))"

subsection \<open>format_date\<close>

definition date_formats :: "string list" where
  "date_formats =
     [''%Y-%m-%d'',
      ''%d %B %Y'', ''%d %b %Y'', ''%B %d, %Y'', ''%b %d, %Y'',
      ''%d.%m.%Y'', ''%d/%m/%Y'', ''%m/%d/%Y'', ''%Y/%m/%d'',
      ''%d %B, %Y'', ''%d %b, %Y'', ''%d.%B.%Y'', ''%d.%b.%Y'',
      ''%d %B'', ''%d %b'', ''%B %d'', ''%b %d'',
      ''%dth of %B, %Y'', ''%dth of %B %Y'', ''%dst of %B %Y'', ''%dnd of %B %Y'', ''%drd of %B %Y'',
      ''%dth of %b, %Y'', ''%dth of %b %Y'', ''%dst of %b %Y'', ''%dnd of %b %Y'', ''%drd of %b %Y'',
      ''%d.%m.%y'', ''%d/%m/%y'', ''%m/%d/%y'', ''%y/%m/%d'']"

definition rewrite_with :: "regex \<Rightarrow> string \<Rightarrow> string" where
  "rewrite_with r date_str =
     (case re_match r date_str of
        None \<Rightarrow> date_str
      | Some m \<Rightarrow> grp m ''1'' @ '' '' @ grp m ''2'' @ '' '' @ grp m ''3'')"

fun contains :: "string \<Rightarrow> string \<Rightarrow> bool" where
  "contains sub [] = (sub = [])"
| "contains sub (c # cs) = (take (length sub) (c # cs) = sub \<or> contains sub cs)"

definition try_format :: "nat \<Rightarrow> string \<Rightarrow> string \<Rightarrow> string option" where
  "try_format now date_str fmt =
     (case strptime date_str fmt of
        None \<Rightarrow> None
      | Some date_obj \<Rightarrow>
          if \<not> contains [CHR 0x25, CHR ''Y''] fmt \<and> \<not> contains [CHR 0x25, CHR ''y''] fmt then
            (if valid_date now (month date_obj) (day date_obj)
             then Some (strftime (date_obj\<lparr>year := now\<rparr>)) else None)
          else Some (strftime date_obj))"

fun first_format :: "nat \<Rightarrow> string \<Rightarrow> string list \<Rightarrow> string option" where
  "first_format now date_str [] = None"
| "first_format now date_str (fmt # fmts) =
     (case try_format now date_str fmt of
        Some out \<Rightarrow> Some out
      | None \<Rightarrow> first_format now date_str fmts)"

fun first_strptime :: "string \<Rightarrow> string list \<Rightarrow> string option" where
  "first_strptime temp_str [] = None"
| "first_strptime temp_str (fmt # fmts) =
     (case strptime temp_str fmt of
        Some date_obj \<Rightarrow> Some (strftime date_obj)
      | None \<Rightarrow> first_strptime temp_str fmts)"

definition weekday_fallback :: "string \<Rightarrow> string option" where
  "weekday_fallback date_str =
     (case re_search weekday_pattern date_str of
        None \<Rightarrow> None
      | Some m \<Rightarrow> first_strptime (grp m ''2'' @ '' '' @ grp m ''3'' @ '' '' @ grp m ''4'')
          [''%d %B %Y'', ''%d %b %Y''])"

definition format_date :: "nat \<Rightarrow> pyval \<Rightarrow> string" where
  "format_date now v =
     (if \<not> truthy v \<or> pd_isna v then ''''
      else
        let date_str = strip (py_str v);
            date_str = rewrite_with special_format date_str;
            date_str = rewrite_with dot_format date_str;
            date_str = rewrite_with comma_format date_str
        in case first_format now date_str date_formats of
             Some out \<Rightarrow> out
           | None \<Rightarrow>
              (case weekday_fallback date_str of
                 Some out \<Rightarrow> out
               | None \<Rightarrow> date_str))"

section \<open>Decoded replies\<close>

text \<open>
  The values \<open>json.loads\<close> produces. An object is a list of members with distinct keys, in
  the order of first insertion, as a Python \<open>dict\<close> keeps them. A float carries the text
  of its literal.
\<close>

datatype json = JNull | JBool bool | JInt int | JFloat string | JStr string
  | JArr "json list" | JObj "(string \<times> json) list"

fun is_object :: "json \<Rightarrow> bool" where
  "is_object (JObj members) = True"
| "is_object v = False"

definition dict_set :: "string \<Rightarrow> 'v \<Rightarrow> (string \<times> 'v) list \<Rightarrow> (string \<times> 'v) list" where
  \<comment> \<open>\<open>d[k] = v\<close>\<close>
  "dict_set k v members =
     (if k \<in> fst ` set members
      then map (\<lambda>(k', v'). if k' = k then (k', v) else (k', v')) members
      else members @ [(k, v)])"

subsection \<open>json.loads\<close>

text \<open>
  The decoder of the standard library, as far as the program depends on it: the grammar
  it accepts and the value it builds. \<open>None\<close> stands for \<open>JSONDecodeError\<close>. An escape
  \<open>\uXXXX\<close> for a code point above 255 is decoded to a question mark. The recursion is
  bounded by the length of the text, which every nested value shortens.
\<close>

definition json_ws :: "char \<Rightarrow> bool" where
  "json_ws c = (c = CHR '' '' \<or> c = CHR 0x09 \<or> c = CHR 0x0A \<or> c = CHR 0x0D)"

definition skip_ws :: "string \<Rightarrow> string" where
  "skip_ws s = dropWhile json_ws s"

definition hex_val :: "char \<Rightarrow> nat option" where
  "hex_val c = (let n = (of_char c :: nat) in
     if 48 \<le> n \<and> n \<le> 57 then Some (n - 48)
     else if 65 \<le> n \<and> n \<le> 70 then Some (n - 55)
     else if 97 \<le> n \<and> n \<le> 102 then Some (n - 87)
     else None)"

fun hex4 :: "string \<Rightarrow> (nat \<times> string) option" where
  "hex4 (a # b # c # d # cs) =
     (case (hex_val a, hex_val b, hex_val c, hex_val d) of
        (Some w, Some x, Some y, Some z) \<Rightarrow> Some (((w * 16 + x) * 16 + y) * 16 + z, cs)
      | _ \<Rightarrow> None)"
| "hex4 cs = None"

definition code_point_char :: "nat \<Rightarrow> char" where
  "code_point_char u = (if u < 256 then char_of u else CHR ''?'')"

definition unicode_escape :: "string \<Rightarrow> (char \<times> string) option" where
  "unicode_escape cs =
     (case hex4 cs of
        None \<Rightarrow> None
      | Some (u, cs') \<Rightarrow>
          if 0xD800 \<le> u \<and> u \<le> 0xDBFF then
            (case cs' of
               b # x # cs'' \<Rightarrow>
                 if b = CHR 0x5C \<and> x = CHR ''u'' then
                   (case hex4 cs'' of
                      Some (u2, cs3) \<Rightarrow>
                        if 0xDC00 \<le> u2 \<and> u2 \<le> 0xDFFF then Some (CHR ''?'', cs3)
                        else Some (CHR ''?'', cs')
                    | None \<Rightarrow> Some (CHR ''?'', cs'))
                 else Some (CHR ''?'', cs')
             | _ \<Rightarrow> Some (CHR ''?'', cs'))
          else Some (code_point_char u, cs'))"

definition simple_escape :: "char \<Rightarrow> char option" where
  "simple_escape e =
     (if e = CHR 0x22 then Some (CHR 0x22)
      else if e = CHR 0x5C then Some (CHR 0x5C)
      else if e = CHR ''/'' then Some (CHR ''/'')
      else if e = CHR ''b'' then Some (CHR 0x08)
      else if e = CHR ''f'' then Some (CHR 0x0C)
      else if e = CHR ''n'' then Some (CHR 0x0A)
      else if e = CHR ''r'' then Some (CHR 0x0D)
      else if e = CHR ''t'' then Some (CHR 0x09)
      else None)"

fun scanstring :: "nat \<Rightarrow> string \<Rightarrow> (string \<times> string) option" where
  "scanstring 0 s = None"
| "scanstring (Suc n) [] = None"
| "scanstring (Suc n) (c # cs) =
     (if c = CHR 0x22 then Some ([], cs)
      else if c = CHR 0x5C then
        (case cs of
           [] \<Rightarrow> None
         | e # es \<Rightarrow>
             if e = CHR ''u'' then
               (case unicode_escape es of
                  None \<Rightarrow> None
                | Some (x, es') \<Rightarrow> map_option (\<lambda>(t, r). (x # t, r)) (scanstring n es'))
             else
               (case simple_escape e of
                  None \<Rightarrow> None
                | Some x \<Rightarrow> map_option (\<lambda>(t, r). (x # t, r)) (scanstring n es)))
      else if (of_char c :: nat) < 32 then None
      else map_option (\<lambda>(t, r). (c # t, r)) (scanstring n cs))"

definition nat_of_digits :: "string \<Rightarrow> nat" where
  "nat_of_digits s = foldl (\<lambda>n c. 10 * n + (of_char c - 48)) 0 s"

definition starts_with :: "string \<Rightarrow> string \<Rightarrow> bool" where
  "starts_with p s = (take (length p) s = p)"

definition match_number :: "string \<Rightarrow> (json \<times> string) option" where
  \<comment> \<open>\<open>(-?(?:0|[1-9]\d*))(\.\d+)?([eE][-+]?\d+)?\<close>\<close>
  "match_number s =
     (let (sign, s1) = (case s of c # cs \<Rightarrow> if c = CHR ''-'' then (''-'', cs) else ([], s) | [] \<Rightarrow> ([], s));
          ds = takeWhile is_decimal s1;
          ipart = (case ds of [] \<Rightarrow> [] | d # r \<Rightarrow> if d = CHR ''0'' then [d] else ds)
      in if ipart = [] then None
         else
           let s2 = drop (length ipart) s1;
               frac = (case s2 of c # cs \<Rightarrow>
                         if c = CHR ''.'' \<and> takeWhile is_decimal cs \<noteq> []
                         then c # takeWhile is_decimal cs else []
                       | [] \<Rightarrow> []);
               s3 = drop (length frac) s2;
               ex = (case s3 of c # cs \<Rightarrow>
                       if c = CHR ''e'' \<or> c = CHR ''E'' then
                         (let (sg, r) = (case cs of x # xs \<Rightarrow>
                                  if x = CHR ''-'' \<or> x = CHR ''+'' then ([x], xs) else ([], cs)
                                | [] \<Rightarrow> ([], cs))
                          in if takeWhile is_decimal r \<noteq> [] then c # sg @ takeWhile is_decimal r else [])
                       else []
                     | [] \<Rightarrow> []);
               s4 = drop (length ex) s3
           in if frac = [] \<and> ex = [] then
                Some (JInt (if sign = [] then int (nat_of_digits ipart)
                            else - int (nat_of_digits ipart)), s4)
              else Some (JFloat (sign @ ipart @ frac @ ex), s4))"

fun scan_once :: "nat \<Rightarrow> string \<Rightarrow> (json \<times> string) option"
  and scan_array :: "nat \<Rightarrow> json list \<Rightarrow> string \<Rightarrow> (json \<times> string) option"
  and scan_object :: "nat \<Rightarrow> (string \<times> json) list \<Rightarrow> string \<Rightarrow> (json \<times> string) option"
where
  "scan_once 0 s = None"
| "scan_once (Suc n) [] = None"
| "scan_once (Suc n) (c # cs) =
     (if c = CHR 0x22 then map_option (\<lambda>(t, r). (JStr t, r)) (scanstring (length cs) cs)
      else if c = CHR ''{'' then
        (case skip_ws cs of
           x # xs \<Rightarrow> if x = CHR ''}'' then Some (JObj [], xs) else scan_object n [] (x # xs)
         | [] \<Rightarrow> None)
      else if c = CHR ''['' then
        (case skip_ws cs of
           x # xs \<Rightarrow> if x = CHR '']'' then Some (JArr [], xs) else scan_array n [] (x # xs)
         | [] \<Rightarrow> None)
      else if starts_with ''null'' (c # cs) then Some (JNull, drop 4 (c # cs))
      else if starts_with ''true'' (c # cs) then Some (JBool True, drop 4 (c # cs))
      else if starts_with ''false'' (c # cs) then Some (JBool False, drop 5 (c # cs))
      else (case match_number (c # cs) of
          Some r \<Rightarrow> Some r
        | None \<Rightarrow>
           if starts_with ''NaN'' (c # cs) then Some (JFloat ''NaN'', drop 3 (c # cs))
           else if starts_with ''Infinity'' (c # cs) then Some (JFloat ''Infinity'', drop 8 (c # cs))
           else if starts_with ''-Infinity'' (c # cs) then Some (JFloat ''-Infinity'', drop 9 (c # cs))
           else None))"
| "scan_array 0 acc s = None"
| "scan_array (Suc n) acc s =
     (case scan_once n s of
        None \<Rightarrow> None
      | Some (v, r) \<Rightarrow>
         (case skip_ws r of
            x # xs \<Rightarrow>
              if x = CHR '']'' then Some (JArr (acc @ [v]), xs)
              else if x = CHR '','' then scan_array n (acc @ [v]) (skip_ws xs)
              else None
          | [] \<Rightarrow> None))"
| "scan_object 0 acc s = None"
| "scan_object (Suc n) acc s =
     (case s of
        q # ks \<Rightarrow>
          if q \<noteq> CHR 0x22 then None
          else (case scanstring (length ks) ks of
             None \<Rightarrow> None
           | Some (key, r) \<Rightarrow>
              (case skip_ws r of
                 col # r1 \<Rightarrow>
                   if col \<noteq> CHR '':'' then None
                   else (case scan_once n (skip_ws r1) of
                      None \<Rightarrow> None
                    | Some (v, r2) \<Rightarrow>
                       (case skip_ws r2 of
                          x # xs \<Rightarrow>
                            if x = CHR ''}'' then Some (JObj (dict_set key v acc), xs)
                            else if x = CHR '','' then scan_object n (dict_set key v acc) (skip_ws xs)
                            else None
                        | [] \<Rightarrow> None))
               | [] \<Rightarrow> None))
      | [] \<Rightarrow> None)"

definition json_loads :: "string \<Rightarrow> json option" where
  "json_loads s =
     (case scan_once (Suc (length s)) (skip_ws s) of
        None \<Rightarrow> None
      | Some (obj, r) \<Rightarrow> if skip_ws r = [] then Some obj else None)"

section \<open>LlmProcessor._parse_model_output\<close>

fun find_from :: "char \<Rightarrow> string \<Rightarrow> int \<Rightarrow> int" where
  "find_from x [] i = - 1"
| "find_from x (c # cs) i = (if c = x then i else find_from x cs (i + 1))"

definition str_find :: "char \<Rightarrow> string \<Rightarrow> int" where
  \<comment> \<open>\<open>s.find(x)\<close>: the index of the first occurrence, or -1\<close>
  "str_find x s = find_from x s 0"

definition str_rfind :: "char \<Rightarrow> string \<Rightarrow> int" where
  \<comment> \<open>\<open>s.rfind(x)\<close>: the index of the last occurrence, or -1\<close>
  "str_rfind x s = (let k = str_find x (rev s) in if k < 0 then - 1 else int (length s) - 1 - k)"

definition slice :: "string \<Rightarrow> int \<Rightarrow> int \<Rightarrow> string" where
  \<comment> \<open>\<open>s[a:b]\<close> for \<open>0 \<le> a\<close> and \<open>0 \<le> b\<close>\<close>
  "slice s a b = take (nat b - nat a) (drop (nat a) s)"

definition parse_model_output :: "string \<Rightarrow> json" where
  "parse_model_output output =
     (let json_start = str_find CHR ''{'' output;
          json_end = str_rfind CHR ''}'' output + 1;
          decoded = (if json_start \<ge> 0 \<and> json_end > json_start
                     then json_loads (slice output json_start json_end)
                     else json_loads output)
      in case decoded of Some data \<Rightarrow> data | None \<Rightarrow> JObj [])"


section \<open>Exceptions and the environment\<close>

text \<open>
  An exception is represented by the text \<open>str(e)\<close> gives for it; for exceptions raised by
  the interpreter the text is the name of the exception class. The environment collects
  what the program obtains from outside: the download and text extraction of a document
  (\<open>fetch\<close>: the text, or the exception raised on the way), the call of the language
  model (\<open>llm\<close>: the text of its reply, or the exception raised by the request), the
  current year, and \<open>other_value\<close>: what normalization yields for a member value that
  is a float, an array or an object, which depends on float formatting and on the
  treatment of containers by \<open>pandas.isna\<close>; it is either a text or an exception.
\<close>

datatype exn = Exn string

fun exn_str :: "exn \<Rightarrow> string" where
  "exn_str (Exn msg) = msg"

record env =
  fetch :: "string \<Rightarrow> exn + string"
  llm :: "string \<Rightarrow> string list \<Rightarrow> exn + string"
  other_value :: "string \<Rightarrow> json \<Rightarrow> exn + string"
  this_year :: nat

section \<open>DataFormatter.process_results\<close>

definition category_fields :: "string list" where
  "category_fields =
     [''Master Student'', ''Doctoral Student'', ''PostDoc'', ''Research Assistant'',
      ''Competition'', ''Summer School'', ''Conference'', ''Workshop'',
      ''Physical_Geo'', ''Human_Geo'', ''Urban'', ''GIS'', ''RS'', ''GNSS'']"

definition date_fields :: "string list" where
  "date_fields = [''Deadline'']"

definition number_fields :: "string list" where
  "number_fields = [''Number_Places'']"

definition translation_fields :: "string list" where
  "translation_fields = [''University_CN'', ''Country_CN'']"

definition text_fields :: "string list \<Rightarrow> string list" where
  "text_fields keys =
     filter (\<lambda>k. k \<notin> set category_fields \<and> k \<notin> set date_fields \<and> k \<notin> set number_fields
               \<and> k \<notin> set translation_fields
               \<and> k \<notin> set [''Notes'', ''Source'', ''Verifier'', ''Error'']) keys"

fun scalar :: "json \<Rightarrow> pyval option" where
  "scalar JNull = Some PNone"
| "scalar (JBool b) = Some (PBool b)"
| "scalar (JInt i) = Some (PInt i)"
| "scalar (JStr s) = Some (PStr s)"
| "scalar v = None"

definition text_value :: "pyval \<Rightarrow> string" where
  \<comment> \<open>\<open>str(value).strip() if value and not pd.isna(value) else ""\<close>\<close>
  "text_value v = (if truthy v \<and> \<not> pd_isna v then strip (py_str v) else '''')"

definition process_value :: "env \<Rightarrow> string list \<Rightarrow> string \<Rightarrow> json \<Rightarrow> exn + string" where
  "process_value e keys key v =
     (case scalar v of
        None \<Rightarrow> other_value e key v
      | Some p \<Rightarrow> Inr
         (if key \<in> set date_fields then format_date (this_year e) p
          else if key \<in> set category_fields then normalize_value p
          else if key \<in> set number_fields then process_number p
          else if key \<in> set (text_fields keys) \<or> key \<in> set translation_fields then text_value p
          else text_value p))"

fun process_items ::
  "env \<Rightarrow> string list \<Rightarrow> (string \<times> json) list \<Rightarrow> (string \<times> string) list
     \<Rightarrow> exn + (string \<times> string) list" where
  "process_items e keys [] processed_results = Inr processed_results"
| "process_items e keys ((key, v) # others) processed_results =
     (case process_value e keys key v of
        Inl x \<Rightarrow> Inl x
      | Inr s \<Rightarrow> process_items e keys others (dict_set key s processed_results))"

definition process_results :: "env \<Rightarrow> json \<Rightarrow> exn + (string \<times> string) list" where
  \<comment> \<open>a value that is not a \<open>dict\<close> has no \<open>keys\<close>\<close>
  "process_results e results =
     (case results of
        JObj members \<Rightarrow> process_items e (map fst members) members []
      | _ \<Rightarrow> Inl (Exn ''AttributeError''))"

section \<open>ExcelProcessor\<close>

text \<open>
  The loaded table (\<open>self.df\<close>) is a list of column names and a list of rows; a row gives
  the cell of each column, and the index of a row is its position. The worksheet of the
  workbook gives the value of the cell at each row and column number.
\<close>

type_synonym row = "string \<Rightarrow> pyval"

record dataframe =
  df_columns :: "string list"
  df_rows :: "row list"

type_synonym sheet = "nat \<times> nat \<Rightarrow> pyval"

subsection \<open>The URL test\<close>

definition one_of :: "string \<Rightarrow> char \<Rightarrow> bool" where
  "one_of cs c = (c \<in> set cs)"

definition is_alnum_ascii :: "char \<Rightarrow> bool" where
  \<comment> \<open>\<open>[a-zA-Z0-9]\<close>\<close>
  "is_alnum_ascii c = (let n = (of_char c :: nat) in
     (48 \<le> n \<and> n \<le> 57) \<or> (65 \<le> n \<and> n \<le> 90) \<or> (97 \<le> n \<and> n \<le> 122))"

definition url_pattern :: regex where
  "url_pattern = seqs
     [Bol,
      Opt (Grp ''1'' (seqs [lit ''http'', Opt (chr CHR ''s''), lit ''://''])),
      Opt (Grp ''2'' (lit ''www.'')),
      Rep (\<lambda>c. is_alnum_ascii c \<or> one_of ''-@:%._+~#='' c) 1 (Some 256),
      chr CHR ''.'',
      Rep (\<lambda>c. is_alnum_ascii c \<or> one_of ''()'' c) 1 (Some 6),
      WordB,
      Grp ''3'' (Rep (\<lambda>c. is_alnum_ascii c \<or> one_of ''-()@:%_+.~#?&/='' c) 0 None)]"

definition is_url :: "string \<Rightarrow> bool" where
  "is_url text = (re_match url_pattern (strip text) \<noteq> None)"

subsection \<open>filter_rows\<close>

definition ensure_column :: "dataframe \<Rightarrow> string \<Rightarrow> dataframe" where
  \<comment> \<open>\<open>if col not in self.df.columns: self.df[col] = None\<close>\<close>
  "ensure_column df col =
     (if col \<in> set (df_columns df) then df
      else df\<lparr>df_columns := df_columns df @ [col],
              df_rows := map (\<lambda>r. r(col := PNone)) (df_rows df)\<rparr>)"

definition series_or :: "bool list \<Rightarrow> bool list \<Rightarrow> bool list" where
  "series_or a b = map (\<lambda>(x, y). x \<or> y) (zip a b)"

definition series_and :: "bool list \<Rightarrow> bool list \<Rightarrow> bool list" where
  "series_and a b = map (\<lambda>(x, y). x \<and> y) (zip a b)"

definition notes_is_url :: "pyval \<Rightarrow> bool" where
  \<comment> \<open>\<open>self._is_url(x) if isinstance(x, str) else False\<close>\<close>
  "notes_is_url x = (case x of PStr s \<Rightarrow> is_url s | _ \<Rightarrow> False)"

definition select_mask :: "bool list \<Rightarrow> 'a list \<Rightarrow> (nat \<times> 'a) list" where
  \<comment> \<open>\<open>df[mask]\<close>: the rows whose mask entry is true, each with its index\<close>
  "select_mask keep rs =
     map (\<lambda>(i, r, m). (i, r)) (filter (\<lambda>(i, r, m). m) (zip [0 ..< length rs] (zip rs keep)))"

definition filter_rows :: "dataframe \<Rightarrow> dataframe \<times> (nat \<times> row) list" where
  "filter_rows df0 =
     (let df = foldl ensure_column df0 [''Notes'', ''Verifier'', ''Error''];
          notes = map (\<lambda>r. r ''Notes'') (df_rows df);
          verifier = map (\<lambda>r. r ''Verifier'') (df_rows df);
          error = map (\<lambda>r. r ''Error'') (df_rows df);
          keep = series_and
            (series_and
              (series_or (series_or (map pd_isna notes) (map (\<lambda>v. v = PStr '''') notes))
                 (map notes_is_url notes))
              (series_or (map pd_isna verifier) (map (\<lambda>v. v = PStr '''') verifier)))
            (series_or (map pd_isna error) (map (\<lambda>v. v = PStr '''') error))
      in (df, select_mask keep (df_rows df)))"

subsection \<open>write_results\<close>

definition get_column_index :: "string list \<Rightarrow> string \<Rightarrow> nat" where
  "get_column_index cols column_name =
     (case index_of cols column_name of Some i \<Rightarrow> i + 1 | None \<Rightarrow> 0)"

definition set_cell :: "sheet \<Rightarrow> nat \<Rightarrow> nat \<Rightarrow> pyval \<Rightarrow> exn + sheet" where
  \<comment> \<open>\<open>ws.cell(row=r, column=c).value = v\<close>: row and column numbers start at 1\<close>
  "set_cell ws r c v =
     (if r < 1 \<or> c < 1 then Inl (Exn ''ValueError'') else Inr (ws((r, c) := v)))"

fun write_fields :: "string list \<Rightarrow> nat \<Rightarrow> (string \<times> string) list \<Rightarrow> sheet \<Rightarrow> exn + sheet" where
  "write_fields cols excel_row [] ws = Inr ws"
| "write_fields cols excel_row ((col_name, v) # others) ws =
     (let col_index = get_column_index cols col_name in
        if col_index \<noteq> 0 then
          (case set_cell ws excel_row col_index (PStr v) of
             Inl x \<Rightarrow> Inl x
           | Inr ws' \<Rightarrow> write_fields cols excel_row others ws')
        else write_fields cols excel_row others ws)"

definition write_results_try ::
  "env \<Rightarrow> string list \<Rightarrow> sheet \<Rightarrow> nat \<Rightarrow> json \<Rightarrow> bool \<Rightarrow> string \<Rightarrow> exn + sheet" where
  \<comment> \<open>the body of the \<open>try\<close> block\<close>
  "write_results_try e cols ws row_index results has_error error_msg =
     (let excel_row = row_index + 2 in
        if has_error then
          set_cell ws excel_row (get_column_index cols ''Error'') (PStr error_msg)
        else
          (case process_results e results of
             Inl x \<Rightarrow> Inl x
           | Inr processed_results \<Rightarrow>
              (case write_fields cols excel_row processed_results ws of
                 Inl x \<Rightarrow> Inl x
               | Inr ws' \<Rightarrow>
                  (let verifier_col = get_column_index cols ''Verifier'' in
                     if verifier_col \<noteq> 0 then set_cell ws' excel_row verifier_col (PStr ''LLM'')
                     else Inr ws'))))"

definition write_results ::
  "env \<Rightarrow> string list \<Rightarrow> sheet \<Rightarrow> nat \<Rightarrow> json \<Rightarrow> bool \<Rightarrow> string \<Rightarrow> sheet" where
  \<comment> \<open>\<open>except Exception\<close>: the error is logged, the worksheet is left as it was\<close>
  "write_results e cols ws row_index results has_error error_msg =
     (case write_results_try e cols ws row_index results has_error error_msg of
        Inl x \<Rightarrow> ws
      | Inr ws' \<Rightarrow> ws')"

section \<open>WebPageExtractor and LlmProcessor\<close>

text \<open>
  The label of the failure marker and the prefix of the error message consist of CJK
  characters (U+63D0 U+53D6 U+5931 U+8D25 and U+5904 U+7406 U+5931 U+8D25), outside the
  range of characters of this model; each is written as a question mark. The program
  never inspects these texts.
\<close>

definition failure_marker :: "string \<Rightarrow> string" where
  "failure_marker msg = ''[????: '' @ msg @ '']''"

definition extract_content :: "env \<Rightarrow> string \<Rightarrow> string" where
  "extract_content e url =
     (case fetch e (strip url) of
        Inl x \<Rightarrow> failure_marker (exn_str x)
      | Inr text \<Rightarrow> text)"

definition extract_structured_info :: "env \<Rightarrow> string \<Rightarrow> string list \<Rightarrow> exn + json" where
  "extract_structured_info e text field_names =
     (case llm e text field_names of
        Inl x \<Rightarrow> Inl x
      | Inr model_output \<Rightarrow> Inr (parse_model_output model_output))"

section \<open>ExtractionSystem.run\<close>

definition error_prefix :: string where
  "error_prefix = ''????: ''"

definition fail_row :: "env \<Rightarrow> string list \<Rightarrow> sheet \<Rightarrow> nat \<Rightarrow> exn \<Rightarrow> sheet" where
  \<comment> \<open>the \<open>except Exception\<close> of the loop body\<close>
  "fail_row e cols ws idx x =
     write_results e cols ws idx (JObj []) True (error_prefix @ exn_str x)"

definition process_url ::
  "env \<Rightarrow> string list \<Rightarrow> int \<Rightarrow> string list \<Rightarrow> sheet \<Rightarrow> nat \<Rightarrow> pyval \<Rightarrow> sheet" where
  \<comment> \<open>fetch, extract, write; \<open>url.strip()\<close> needs a text; \<open>(i + 1) % batch_size\<close> divides\<close>
  "process_url e cols batch_size field_names ws idx url =
     (case url of
        PStr u \<Rightarrow>
          (case extract_structured_info e (extract_content e u) field_names of
             Inl x \<Rightarrow> fail_row e cols ws idx x
           | Inr structured_info \<Rightarrow>
              (let ws' = write_results e cols ws idx structured_info False '''' in
                 if batch_size = 0 then fail_row e cols ws' idx (Exn ''ZeroDivisionError'')
                 else ws'))
      | _ \<Rightarrow> fail_row e cols ws idx (Exn ''AttributeError''))"

definition process_row ::
  "env \<Rightarrow> string list \<Rightarrow> string \<Rightarrow> int \<Rightarrow> string list \<Rightarrow> sheet \<Rightarrow> nat \<times> row \<Rightarrow> sheet" where
  "process_row e cols url_column batch_size field_names ws ir =
     (let idx = fst ir; r = snd ir;
          notes_value = (if \<not> pd_isna (r ''Notes'') then r ''Notes'' else PStr '''')
      in if notes_is_url notes_value then
           process_url e cols batch_size field_names ws idx (PStr (strip (py_str notes_value)))
         else if url_column \<notin> set cols then fail_row e cols ws idx (Exn ''KeyError'')
         else
           (let url = r url_column in
              if \<not> truthy url \<or> pd_isna url then ws
              else process_url e cols batch_size field_names ws idx url))"

definition default_fields :: "string \<Rightarrow> string list \<Rightarrow> string list" where
  "default_fields url_column cols =
     filter (\<lambda>col. col \<notin> set [''Notes'', ''Verifier'', ''Error'', url_column, ''????'']) cols"

definition run ::
  "env \<Rightarrow> string \<Rightarrow> int \<Rightarrow> string list option \<Rightarrow> dataframe \<Rightarrow> sheet \<Rightarrow> sheet" where
  "run e url_column batch_size field_names df0 ws =
     (let (df, filtered_df) = filter_rows df0 in
        if filtered_df = [] then ws
        else
          (let fs = (case field_names of Some f \<Rightarrow> f
                     | None \<Rightarrow> default_fields url_column (df_columns df))
           in foldl (process_row e (df_columns df) url_column batch_size fs) ws filtered_df))"

section \<open>Notions of the specification and example data\<close>




definition example_env :: env where
  "example_env = \<lparr>fetch = (\<lambda>url. Inl (Exn ''timed out'')),
     llm = (\<lambda>text names. Inr ''{\"Deadline\": \"9th of June, 2025\", \"Salary\": \"high\"}''),
     other_value = (\<lambda>key v. Inl (Exn ''ValueError'')),
     this_year = 2025\<rparr>"

definition example_columns :: "string list" where
  "example_columns = [''Source'', ''Notes'', ''Deadline'', ''Verifier'', ''Error'']"

definition empty_sheet :: sheet where
  "empty_sheet = (\<lambda>cell. PNone)"

text \<open>
  The part of a reply from its first opening brace to its last closing brace; it is empty
  when the reply has no opening brace, or no closing brace after the first opening one.
\<close>

definition brace_span :: "string \<Rightarrow> string" where
  "brace_span output =
     rev (dropWhile (\<lambda>c. c \<noteq> CHR ''}'') (rev (dropWhile (\<lambda>c. c \<noteq> CHR ''{'') output)))"

definition decode_or_empty :: "string \<Rightarrow> json" where
  "decode_or_empty t = (case json_loads t of Some data \<Rightarrow> data | None \<Rightarrow> JObj [])"




section \<open>Properties of the text primitives\<close>




lemma strip_hd: "strip s \<noteq> [] \<Longrightarrow> \<not> is_space (hd (strip s))"
  unfolding strip_def lstrip_def by (rule hd_dropWhile)








lemma all_decimal_isdigit: "all_decimal s \<Longrightarrow> isdigit s"
  by (auto simp: all_decimal_def isdigit_def list_all_iff is_decimal_def is_digit_def Let_def)

section \<open>Category normalization\<close>







section \<open>Quantity normalization\<close>

lemma english_to_number_all: "list_all (\<lambda>(k, d). all_decimal d) english_to_number"
  by code_simp

lemma english_to_number_digits:
  assumes "map_of english_to_number k = Some d" shows "all_decimal d"
proof -
  from assms have "(k, d) \<in> set english_to_number" by (rule map_of_SomeD)
  with english_to_number_all show ?thesis by (auto simp: list_all_iff)
qed

text \<open>
  C1, as the specification states it, fails: a text that is neither a digit string nor
  one of the number words is passed through, so the output need not be empty or digits.
\<close>

theorem process_number_counterexample:
  "\<not> (process_number (PStr ''several'') = '''' \<or> all_decimal (process_number (PStr ''several'')))"
  by code_simp

text \<open>
  C1, amended. For every input value, the quantity branch of
  \<open>DataFormatter.process_results\<close> returns the empty string, or a string that passes
  \<open>str.isdigit\<close>, or, for a text input whose trimmed form is neither such a digit string
  nor (lower-cased) one of the number words of the table, that trimmed text itself.
\<close>

theorem process_number_closure:
  "process_number v = '''' \<or> isdigit (process_number v)
   \<or> (\<exists>s. v = PStr s \<and> process_number v = strip s \<and> \<not> isdigit (strip s)
          \<and> map_of english_to_number (lower (strip s)) = None)"
proof (cases "truthy v \<and> isdigit (strip (py_str v))")
  case True
  then show ?thesis by (simp add: process_number_def)
next
  case False
  show ?thesis
  proof (cases v)
    case (PStr s)
    show ?thesis
    proof (cases "map_of english_to_number (lower (strip s))")
      case None
      with False PStr show ?thesis by (auto simp: process_number_def)
    next
      case (Some d)
      then have "isdigit d" by (simp add: english_to_number_digits all_decimal_isdigit)
      with False PStr Some show ?thesis by (auto simp: process_number_def)
    qed
  qed (use False in \<open>auto simp: process_number_def\<close>)
qed

section \<open>Row selection\<close>















section \<open>Writing results\<close>

lemma index_of_None_iff: "index_of xs x = None \<longleftrightarrow> x \<notin> set xs"
  by (induction xs) auto

lemma index_of_inj: "index_of xs a = Some i \<Longrightarrow> index_of xs b = Some i \<Longrightarrow> a = b"
  by (induction xs arbitrary: i) (auto split: if_splits)

lemma get_column_index_zero: "get_column_index cols name = 0 \<longleftrightarrow> name \<notin> set cols"
  using index_of_None_iff [of cols name]
  by (auto simp: get_column_index_def split: option.splits)

lemma get_column_index_inj:
  assumes "a \<in> set cols" "get_column_index cols a = get_column_index cols b"
  shows "a = b"
proof -
  from assms(1) obtain i where i: "index_of cols a = Some i"
    using index_of_None_iff [of cols a] by (cases "index_of cols a") auto
  with assms(2) have "index_of cols b = Some i"
    by (auto simp: get_column_index_def split: option.splits)
  with i show ?thesis by (rule index_of_inj)
qed

lemma write_results_error:
  "write_results e cols ws row_index results True error_msg =
     (if ''Error'' \<in> set cols
      then ws((row_index + 2, get_column_index cols ''Error'') := PStr error_msg) else ws)"
  using get_column_index_zero [of cols "''Error''"]
  by (auto simp: write_results_def write_results_try_def set_cell_def Let_def)

text \<open>
  C8. A failure write (\<open>ExcelProcessor.write_results\<close> with \<open>has_error=True\<close>) changes no
  cell of the worksheet other than the cell of the row in the \<open>Error\<close> column: the cell of
  every other column of the table, the extraction fields and \<open>Verifier\<close> among them, keeps
  its value, and the \<open>Error\<close> cell receives the message.
\<close>

theorem error_write_frame:
  "(\<forall>r c. (r, c) \<noteq> (row_index + 2, get_column_index cols ''Error'') \<longrightarrow>
       write_results e cols ws row_index results True error_msg (r, c) = ws (r, c))
   \<and> (name \<in> set cols \<and> name \<noteq> ''Error'' \<longrightarrow>
       write_results e cols ws row_index results True error_msg (r, get_column_index cols name)
         = ws (r, get_column_index cols name))
   \<and> (''Error'' \<in> set cols \<longrightarrow>
       write_results e cols ws row_index results True error_msg
         (row_index + 2, get_column_index cols ''Error'') = PStr error_msg)"
proof (intro conjI allI impI)
  fix r c
  assume "(r, c) \<noteq> (row_index + 2, get_column_index cols ''Error'')"
  then show "write_results e cols ws row_index results True error_msg (r, c) = ws (r, c)"
    by (auto simp: write_results_error)
next
  assume h: "name \<in> set cols \<and> name \<noteq> ''Error''"
  then have "get_column_index cols name \<noteq> get_column_index cols ''Error''"
    using get_column_index_inj [of name cols "''Error''"] by blast
  then show "write_results e cols ws row_index results True error_msg (r, get_column_index cols name)
         = ws (r, get_column_index cols name)"
    by (simp add: write_results_error)
next
  assume "''Error'' \<in> set cols"
  then show "write_results e cols ws row_index results True error_msg
         (row_index + 2, get_column_index cols ''Error'') = PStr error_msg"
    by (simp add: write_results_error)
qed

theorem error_write_frame_witness:
  "''Verifier'' \<in> set example_columns \<and> ''Verifier'' \<noteq> ''Error'' \<and> ''Error'' \<in> set example_columns
   \<and> (2::nat, 4::nat) \<noteq> ((0::nat) + 2, get_column_index example_columns ''Error'')
   \<and> write_results example_env example_columns empty_sheet 0 (JObj []) True ''????: timed out''
        (2::nat, get_column_index example_columns ''Verifier'') = empty_sheet (2::nat, get_column_index example_columns ''Verifier'')
   \<and> write_results example_env example_columns empty_sheet 0 (JObj []) True ''????: timed out'' (2::nat, 4::nat)
        = empty_sheet (2::nat, 4::nat)
   \<and> write_results example_env example_columns empty_sheet 0 (JObj []) True ''????: timed out''
        ((0::nat) + 2, get_column_index example_columns ''Error'') = PStr ''????: timed out''"
proof -
  have h: "''Verifier'' \<in> set example_columns \<and> ''Verifier'' \<noteq> ''Error'' \<and> ''Error'' \<in> set example_columns
      \<and> (2::nat, 4::nat) \<noteq> ((0::nat) + 2, get_column_index example_columns ''Error'')"
    by (simp add: example_columns_def get_column_index_def)
  show ?thesis
    using h error_write_frame [of 0 example_columns example_env empty_sheet "JObj []"
        "''????: timed out''" "''Verifier''" 2]
    by blast
qed

lemma write_fields_ok: "\<exists>ws'. write_fields cols (row_index + 2) members ws = Inr ws'"
  by (induction members arbitrary: ws) (auto simp: set_cell_def Let_def)

lemma write_fields_known:
  "write_fields cols r members ws = write_fields cols r (filter (\<lambda>(k, v). k \<in> set cols) members) ws"
proof (induction members arbitrary: ws)
  case Nil
  show ?case by simp
next
  case (Cons m members)
  obtain k v where m: "m = (k, v)" by (cases m)
  show ?case
  proof (cases "k \<in> set cols")
    case True
    then have "get_column_index cols k \<noteq> 0" by (simp add: get_column_index_zero)
    with True m Cons show ?thesis by (auto simp: Let_def split: sum.splits)
  next
    case False
    then have "get_column_index cols k = 0" by (simp add: get_column_index_zero)
    with False m Cons show ?thesis by simp
  qed
qed

text \<open>
  C10. On a success write a field whose name is not a column of the loaded table is
  skipped: \<open>ExcelProcessor._get_column_index\<close> returns 0 for it, \<open>write_results\<close> writes
  nothing for it and goes on with the remaining fields, writing the fields raises no
  exception, and once normalization has returned its record the write as a whole raises
  none.
\<close>

theorem unknown_fields_skipped:
  "(name \<notin> set cols \<longrightarrow>
      get_column_index cols name = 0
      \<and> write_fields cols (row_index + 2) [(name, v)] ws = Inr ws
      \<and> write_fields cols (row_index + 2) ((name, v) # others) ws
          = write_fields cols (row_index + 2) others ws)
   \<and> write_fields cols (row_index + 2) members ws
       = write_fields cols (row_index + 2) (filter (\<lambda>(k, v). k \<in> set cols) members) ws
   \<and> (\<exists>ws'. write_fields cols (row_index + 2) members ws = Inr ws')
   \<and> (process_results e results = Inr processed_results \<longrightarrow>
       (\<exists>ws'. write_results_try e cols ws row_index results False error_msg = Inr ws'))"
proof (intro conjI impI)
  assume "name \<notin> set cols"
  then show "get_column_index cols name = 0" by (simp add: get_column_index_zero)
  then show "write_fields cols (row_index + 2) [(name, v)] ws = Inr ws" by simp
next
  assume "name \<notin> set cols"
  then have "get_column_index cols name = 0" by (simp add: get_column_index_zero)
  then show "write_fields cols (row_index + 2) ((name, v) # others) ws
          = write_fields cols (row_index + 2) others ws" by simp
next
  show "write_fields cols (row_index + 2) members ws
       = write_fields cols (row_index + 2) (filter (\<lambda>(k, v). k \<in> set cols) members) ws"
    by (rule write_fields_known)
next
  show "\<exists>ws'. write_fields cols (row_index + 2) members ws = Inr ws'"
    by (rule write_fields_ok)
next
  assume p: "process_results e results = Inr processed_results"
  obtain ws1 where w: "write_fields cols (row_index + 2) processed_results ws = Inr ws1"
    using write_fields_ok by blast
  show "\<exists>ws'. write_results_try e cols ws row_index results False error_msg = Inr ws'"
    using p w by (simp add: write_results_try_def Let_def set_cell_def)
qed

theorem unknown_fields_skipped_witness:
  "''Salary'' \<notin> set example_columns
   \<and> get_column_index example_columns ''Salary'' = 0
   \<and> write_fields example_columns ((0::nat) + 2) [(''Salary'', ''high'')] empty_sheet = Inr empty_sheet
   \<and> write_fields example_columns ((0::nat) + 2) ((''Salary'', ''high'') # [(''Deadline'', ''2025-06-09'')]) empty_sheet
       = write_fields example_columns ((0::nat) + 2) [(''Deadline'', ''2025-06-09'')] empty_sheet"
proof -
  have h: "''Salary'' \<notin> set example_columns" by (simp add: example_columns_def)
  show ?thesis
    using h unknown_fields_skipped [of "''Salary''" example_columns 0 "''high''" empty_sheet
        "[(''Deadline'', ''2025-06-09'')]" "[]" example_env "JObj []" "[]" "[]"]
    by blast
qed

section \<open>The bound of the decoder's recursion\<close>

text \<open>
  The decoder counts its recursion down from the length of the text. Every value it reads
  consumes at least one character, and a count as large as the number of characters
  consumed reads the same value: the count of \<open>json_loads\<close> never cuts a decoding short,
  and a text it rejects is rejected under every count.
\<close>

lemma int_part_len:
  assumes "ipart = (case ds of [] \<Rightarrow> [] | d # r \<Rightarrow> if d = CHR ''0'' then [d] else ds)"
    and "ds = takeWhile p s1" and "ipart \<noteq> []"
  shows "1 \<le> length ipart \<and> length ipart \<le> length s1"
proof -
  have "length ipart \<le> length ds" using assms(1) by (cases ds) auto
  moreover have "length ds \<le> length s1" using assms(2) by (simp add: length_takeWhile_le)
  moreover have "1 \<le> length ipart" using assms(3) by (cases ipart) auto
  ultimately show ?thesis by simp
qed

lemma match_number_len:
  assumes "match_number s = Some (v, r)" shows "length r < length s"
proof -
  define sg where "sg = (case s of c # cs \<Rightarrow> if c = CHR ''-'' then (''-'', cs) else ([], s) | [] \<Rightarrow> ([], s))"
  define s1 where "s1 = snd sg"
  define ds where "ds = takeWhile is_decimal s1"
  define ipart where "ipart = (case ds of [] \<Rightarrow> [] | d # r \<Rightarrow> if d = CHR ''0'' then [d] else ds)"
  have s1: "length s1 \<le> length s"
    unfolding s1_def sg_def by (cases s) auto
  have e: "match_number s =
      (if ipart = [] then None
         else
           let s2 = drop (length ipart) s1;
               frac = (case s2 of c # cs \<Rightarrow>
                         if c = CHR ''.'' \<and> takeWhile is_decimal cs \<noteq> []
                         then c # takeWhile is_decimal cs else []
                       | [] \<Rightarrow> []);
               s3 = drop (length frac) s2;
               ex = (case s3 of c # cs \<Rightarrow>
                       if c = CHR ''e'' \<or> c = CHR ''E'' then
                         (let (sg, r) = (case cs of x # xs \<Rightarrow>
                                  if x = CHR ''-'' \<or> x = CHR ''+'' then ([x], xs) else ([], cs)
                                | [] \<Rightarrow> ([], cs))
                          in if takeWhile is_decimal r \<noteq> [] then c # sg @ takeWhile is_decimal r else [])
                       else []
                     | [] \<Rightarrow> []);
               s4 = drop (length ex) s3
           in if frac = [] \<and> ex = [] then
                Some (JInt (if fst sg = [] then int (nat_of_digits ipart)
                            else - int (nat_of_digits ipart)), s4)
              else Some (JFloat (fst sg @ ipart @ frac @ ex), s4))"
    unfolding match_number_def ipart_def ds_def s1_def sg_def
    by (simp add: Let_def split_beta)
  from assms e have ne: "ipart \<noteq> []" by (auto split: if_splits)
  from assms e ne have r: "length r \<le> length (drop (length ipart) s1)"
    by (auto simp: Let_def split: if_splits)
  have "1 \<le> length ipart \<and> length ipart \<le> length s1"
    using int_part_len [OF ipart_def ds_def ne] .
  then have "length (drop (length ipart) s1) < length s1" by (simp, linarith)
  with r have "length r < length s1" by simp
  with s1 show ?thesis by simp
qed

lemma hex4_len: "hex4 cs = Some (u, r) \<Longrightarrow> length cs = length r + 4"
  by (cases cs rule: hex4.cases) (auto split: option.splits)

lemma unicode_escape_len:
  assumes "unicode_escape cs = Some (x, r)" shows "length r < length cs"
proof -
  from assms obtain u cs' where h: "hex4 cs = Some (u, cs')"
    unfolding unicode_escape_def by (cases "hex4 cs") auto
  then have l: "length cs = length cs' + 4" by (rule hex4_len)
  show ?thesis
  proof (cases "0xD800 \<le> u \<and> u \<le> 0xDBFF")
    case False
    with assms h have "r = cs'" unfolding unicode_escape_def by auto
    with l show ?thesis by simp
  next
    case True
    have "r = cs' \<or> (\<exists>b x' cs'' u2. cs' = b # x' # cs'' \<and> hex4 cs'' = Some (u2, r))"
      using assms h True unfolding unicode_escape_def
      by (simp split: list.splits if_splits option.splits prod.splits)
    then show ?thesis
    proof
      assume "r = cs'" with l show ?thesis by simp
    next
      assume "\<exists>b x' cs'' u2. cs' = b # x' # cs'' \<and> hex4 cs'' = Some (u2, r)"
      then obtain b x' cs'' u2 where c: "cs' = b # x' # cs''" and g: "hex4 cs'' = Some (u2, r)"
        by blast
      from hex4_len [OF g] c l show ?thesis by simp
    qed
  qed
qed

lemma scanstring_step:
  assumes "scanstring (Suc n) (c # cs) = Some (t, r)"
  shows "(c = CHR 0x22 \<and> t = [] \<and> r = cs)
     \<or> (\<exists>s' x t'. length s' < length (c # cs) \<and> scanstring n s' = Some (t', r) \<and> t = x # t'
           \<and> (\<forall>k. scanstring (Suc k) (c # cs) = map_option (\<lambda>(t, r). (x # t, r)) (scanstring k s')))"
proof (cases "c = CHR 0x22")
  case True
  with assms show ?thesis by simp
next
  case q: False
  show ?thesis
  proof (cases "c = CHR 0x5C")
    case False
    with q assms have lo: "\<not> (of_char c :: nat) < 32"
      by (auto split: if_splits)
    with q False assms obtain t' where "scanstring n cs = Some (t', r)" "t = c # t'"
      by auto
    with q False lo show ?thesis by (intro disjI2 exI [of _ cs] exI [of _ c] exI [of _ t']) simp
  next
    case b: True
    with q assms obtain e es where cs: "cs = e # es" by (cases cs) auto
    show ?thesis
    proof (cases "e = CHR ''u''")
      case True
      with q b cs assms obtain x es' where u: "unicode_escape es = Some (x, es')"
        by (cases "unicode_escape es") auto
      with q b cs True assms obtain t' where "scanstring n es' = Some (t', r)" "t = x # t'"
        by auto
      moreover have "length es' < length (c # cs)"
        using unicode_escape_len [OF u] cs by simp
      ultimately show ?thesis
        using q b cs True u
        by (intro disjI2 exI [of _ es'] exI [of _ x] exI [of _ t']) simp
    next
      case False
      with q b cs assms obtain x where u: "simple_escape e = Some x"
        by (cases "simple_escape e") auto
      with q b cs False assms obtain t' where "scanstring n es = Some (t', r)" "t = x # t'"
        by auto
      then show ?thesis
        using q b cs False u
        by (intro disjI2 exI [of _ es] exI [of _ x] exI [of _ t']) simp
    qed
  qed
qed

lemma scanstring_len: "scanstring n s = Some (t, r) \<Longrightarrow> length r < length s"
proof (induction n arbitrary: s t)
  case 0
  then show ?case by simp
next
  case (Suc n)
  then obtain c cs where s: "s = c # cs" by (cases s) auto
  from scanstring_step [OF Suc.prems [unfolded s]] show ?case
  proof
    assume "c = CHR 0x22 \<and> t = [] \<and> r = cs"
    with s show ?thesis by simp
  next
    assume "\<exists>s' x t'. length s' < length (c # cs) \<and> scanstring n s' = Some (t', r) \<and> t = x # t'
           \<and> (\<forall>k. scanstring (Suc k) (c # cs) = map_option (\<lambda>(t, r). (x # t, r)) (scanstring k s'))"
    then obtain s' t' where "length s' < length (c # cs)" "scanstring n s' = Some (t', r)" by blast
    with Suc.IH [of s' t'] s show ?thesis by simp
  qed
qed

lemma scanstring_fuel:
  "scanstring n s = Some (t, r) \<Longrightarrow> k \<ge> length s \<Longrightarrow> scanstring k s = Some (t, r)"
proof (induction n arbitrary: s t k)
  case 0
  then show ?case by simp
next
  case (Suc n)
  then obtain c cs where s: "s = c # cs" by (cases s) auto
  with Suc.prems obtain k' where k: "k = Suc k'" "k' \<ge> length cs" by (cases k) auto
  from scanstring_step [OF Suc.prems(1) [unfolded s]] show ?case
  proof
    assume "c = CHR 0x22 \<and> t = [] \<and> r = cs"
    with s k show ?thesis by simp
  next
    assume "\<exists>s' x t'. length s' < length (c # cs) \<and> scanstring n s' = Some (t', r) \<and> t = x # t'
           \<and> (\<forall>k. scanstring (Suc k) (c # cs) = map_option (\<lambda>(t, r). (x # t, r)) (scanstring k s'))"
    then obtain s' x t' where l: "length s' < length (c # cs)" and a: "scanstring n s' = Some (t', r)"
      and t: "t = x # t'"
      and e: "\<forall>k. scanstring (Suc k) (c # cs) = map_option (\<lambda>(t, r). (x # t, r)) (scanstring k s')"
      by blast
    have "scanstring k' s' = Some (t', r)" using Suc.IH [OF a, of k'] l k by simp
    then show ?thesis using e s k t by simp
  qed
qed

lemma starts_with_drop:
  assumes "starts_with p s" "k = length p" "0 < k" shows "length (drop k s) < length s"
proof -
  from assms(1) have "length p \<le> length s"
    unfolding starts_with_def by (metis length_take min.cobounded1)
  with assms(2,3) have "length s - k < length s" by linarith
  then show ?thesis by simp
qed

lemma scan_atom_fuel:
  "c \<noteq> CHR ''{'' \<Longrightarrow> c \<noteq> CHR ''['' \<Longrightarrow> scan_once (Suc n) (c # cs) = scan_once (Suc 0) (c # cs)"
  by simp

lemma scan_atom_len:
  assumes "c \<noteq> CHR ''{''" "c \<noteq> CHR ''[''" "scan_once (Suc 0) (c # cs) = Some (v, r)"
  shows "length r < length (c # cs)"
proof (cases "c = CHR 0x22")
  case True
  with assms(3) obtain t where "scanstring (length cs) cs = Some (t, r)" by auto
  from scanstring_len [OF this] show ?thesis by simp
next
  case q: False
  define s where "s = c # cs"
  have eq: "scan_once (Suc 0) s =
     (if starts_with ''null'' s then Some (JNull, drop 4 s)
      else if starts_with ''true'' s then Some (JBool True, drop 4 s)
      else if starts_with ''false'' s then Some (JBool False, drop 5 s)
      else (case match_number s of
          Some x \<Rightarrow> Some x
        | None \<Rightarrow>
           if starts_with ''NaN'' s then Some (JFloat ''NaN'', drop 3 s)
           else if starts_with ''Infinity'' s then Some (JFloat ''Infinity'', drop 8 s)
           else if starts_with ''-Infinity'' s then Some (JFloat ''-Infinity'', drop 9 s)
           else None))"
    unfolding s_def using q assms(1,2) by simp
  have res: "scan_once (Suc 0) s = Some (v, r)" using assms(3) by (simp add: s_def)
  have "length r < length s"
  proof (cases "starts_with ''null'' s")
    case True
    with eq res have "r = drop 4 s" by simp
    with starts_with_drop [OF True, of 4] show ?thesis by simp
  next
    case n1: False
    show ?thesis
    proof (cases "starts_with ''true'' s")
      case True
      with eq res n1 have "r = drop 4 s" by simp
      with starts_with_drop [OF True, of 4] show ?thesis by simp
    next
      case n2: False
      show ?thesis
      proof (cases "starts_with ''false'' s")
        case True
        with eq res n1 n2 have "r = drop 5 s" by simp
        with starts_with_drop [OF True, of 5] show ?thesis by simp
      next
        case n3: False
        show ?thesis
        proof (cases "match_number s")
          case (Some x)
          with eq res n1 n2 n3 have "match_number s = Some (v, r)" by simp
          then show ?thesis by (rule match_number_len)
        next
          case None
          show ?thesis
          proof (cases "starts_with ''NaN'' s")
            case True
            with eq res n1 n2 n3 None have "r = drop 3 s" by simp
            with starts_with_drop [OF True, of 3] show ?thesis by simp
          next
            case n4: False
            show ?thesis
            proof (cases "starts_with ''Infinity'' s")
              case True
              with eq res n1 n2 n3 n4 None have "r = drop 8 s" by simp
              with starts_with_drop [OF True, of 8] show ?thesis by simp
            next
              case n5: False
              show ?thesis
              proof (cases "starts_with ''-Infinity'' s")
                case True
                with eq res n1 n2 n3 n4 n5 None have "r = drop 9 s" by simp
                with starts_with_drop [OF True, of 9] show ?thesis by simp
              next
                case False
                with eq res n1 n2 n3 n4 n5 None show ?thesis by simp
              qed
            qed
          qed
        qed
      qed
    qed
  qed
  then show ?thesis by (simp add: s_def)
qed

lemma skip_ws_len: "length (skip_ws s) \<le> length s"
  by (simp add: skip_ws_def length_dropWhile_le)

lemma skip_ws_Cons_len: "skip_ws s = x # xs \<Longrightarrow> length xs < length s"
  using skip_ws_len [of s] by simp

lemma scan_once_step:
  assumes arr: "\<And>acc s v r. scan_array n acc s = Some (v, r) \<Longrightarrow>
      length r < length s \<and> (\<forall>k\<ge>length s - length r. scan_array k acc s = Some (v, r))"
    and obj: "\<And>acc s v r. scan_object n acc s = Some (v, r) \<Longrightarrow>
      length r < length s \<and> (\<forall>k\<ge>length s - length r. scan_object k acc s = Some (v, r))"
    and res: "scan_once (Suc n) s = Some (v, r)"
  shows "length r < length s \<and> (\<forall>k\<ge>length s - length r. scan_once k s = Some (v, r))"
proof -
  from res obtain c cs where s: "s = c # cs" by (cases s) auto
  have fuel: "\<exists>j. k = Suc j \<and> length cs - length r \<le> j"
    if "length r < length s" "length s - length r \<le> k" for k
    using that s by (cases k) auto
  show ?thesis
  proof (cases "c = CHR ''{''")
    case True
    with res s obtain x xs where w: "skip_ws cs = x # xs" by (auto split: list.splits)
    note l = skip_ws_Cons_len [OF w]
    show ?thesis
    proof (cases "x = CHR ''}''")
      case x: True
      with res s True w have r: "v = JObj []" "r = xs" by auto
      have "scan_once k s = Some (v, r)" if "length s - length r \<le> k" for k
      proof -
        from fuel [OF _ that] l r s obtain j where "k = Suc j" by auto
        then show ?thesis using s True w x r by simp
      qed
      then show ?thesis using l r s by simp
    next
      case x: False
      with res s True w have "scan_object n [] (x # xs) = Some (v, r)" by auto
      from obj [OF this] have a: "length r < length (x # xs)"
        and b: "\<And>k. length (x # xs) - length r \<le> k \<Longrightarrow> scan_object k [] (x # xs) = Some (v, r)"
        by auto
      from skip_ws_len [of cs] w have c: "length (x # xs) \<le> length cs" by simp
      have "scan_once k s = Some (v, r)" if "length s - length r \<le> k" for k
      proof -
        from fuel [OF _ that] a c s obtain j where j: "k = Suc j" "length cs - length r \<le> j" by auto
        with c have "length (x # xs) - length r \<le> j" by linarith
        from b [OF this] show ?thesis using j s True w x by simp
      qed
      then show ?thesis using a c s by simp
    qed
  next
    case nb: False
    show ?thesis
    proof (cases "c = CHR ''[''")
      case True
      with res s nb obtain x xs where w: "skip_ws cs = x # xs" by (auto split: list.splits)
      note l = skip_ws_Cons_len [OF w]
      show ?thesis
      proof (cases "x = CHR '']''")
        case x: True
        with res s True nb w have r: "v = JArr []" "r = xs" by auto
        have "scan_once k s = Some (v, r)" if "length s - length r \<le> k" for k
        proof -
          from fuel [OF _ that] l r s obtain j where "k = Suc j" by auto
          then show ?thesis using s True nb w x r by simp
        qed
        then show ?thesis using l r s by simp
      next
        case x: False
        with res s True nb w have "scan_array n [] (x # xs) = Some (v, r)" by auto
        from arr [OF this] have a: "length r < length (x # xs)"
          and b: "\<And>k. length (x # xs) - length r \<le> k \<Longrightarrow> scan_array k [] (x # xs) = Some (v, r)"
          by auto
        from skip_ws_len [of cs] w have c: "length (x # xs) \<le> length cs" by simp
        have "scan_once k s = Some (v, r)" if "length s - length r \<le> k" for k
        proof -
          from fuel [OF _ that] a c s obtain j where j: "k = Suc j" "length cs - length r \<le> j" by auto
          with c have "length (x # xs) - length r \<le> j" by linarith
          from b [OF this] show ?thesis using j s True nb w x by simp
        qed
        then show ?thesis using a c s by simp
      qed
    next
      case nk: False
      have one: "scan_once (Suc 0) (c # cs) = Some (v, r)"
        using res s scan_atom_fuel [OF nb nk, of n cs] by simp
      from scan_atom_len [OF nb nk one] have l: "length r < length s" by (simp add: s)
      have "scan_once k s = Some (v, r)" if "length s - length r \<le> k" for k
      proof -
        from fuel [OF l that] obtain j where "k = Suc j" by auto
        then show ?thesis using one s scan_atom_fuel [OF nb nk, of j cs] by simp
      qed
      with l show ?thesis by simp
    qed
  qed
qed

lemma scan_array_step:
  assumes once: "\<And>s v r. scan_once n s = Some (v, r) \<Longrightarrow>
      length r < length s \<and> (\<forall>k\<ge>length s - length r. scan_once k s = Some (v, r))"
    and arr: "\<And>acc s v r. scan_array n acc s = Some (v, r) \<Longrightarrow>
      length r < length s \<and> (\<forall>k\<ge>length s - length r. scan_array k acc s = Some (v, r))"
    and res: "scan_array (Suc n) acc s = Some (v, r)"
  shows "length r < length s \<and> (\<forall>k\<ge>length s - length r. scan_array k acc s = Some (v, r))"
proof -
  from res obtain v1 r1 where o: "scan_once n s = Some (v1, r1)" by (auto split: option.splits)
  from once [OF o] have a: "length r1 < length s"
    and b: "\<And>k. length s - length r1 \<le> k \<Longrightarrow> scan_once k s = Some (v1, r1)" by auto
  from res o obtain x xs where w: "skip_ws r1 = x # xs" by (auto split: list.splits)
  note l = skip_ws_Cons_len [OF w]
  show ?thesis
  proof (cases "x = CHR '']''")
    case True
    with res o w have r: "v = JArr (acc @ [v1])" "r = xs" by auto
    have "scan_array k acc s = Some (v, r)" if "length s - length r \<le> k" for k
    proof -
      from that a l r obtain j where j: "k = Suc j" "length s - length r1 \<le> j"
        by (cases k) auto
      from b [OF j(2)] show ?thesis using j w True r by simp
    qed
    then show ?thesis using a l r by simp
  next
    case nc: False
    with res o w have x: "x = CHR '',''"
      and t: "scan_array n (acc @ [v1]) (skip_ws xs) = Some (v, r)"
      by (auto split: if_splits)
    from arr [OF t] have c: "length r < length (skip_ws xs)"
      and d: "\<And>k. length (skip_ws xs) - length r \<le> k \<Longrightarrow>
                scan_array k (acc @ [v1]) (skip_ws xs) = Some (v, r)" by auto
    note e = skip_ws_len [of xs]
    have "scan_array k acc s = Some (v, r)" if "length s - length r \<le> k" for k
    proof -
      from that a l c e obtain j where j: "k = Suc j" "length s - length r1 \<le> j"
        "length (skip_ws xs) - length r \<le> j"
        by (cases k) auto
      from b [OF j(2)] d [OF j(3)] show ?thesis using j w nc x by simp
    qed
    then show ?thesis using a l c e by simp
  qed
qed

lemma scan_object_step:
  assumes once: "\<And>s v r. scan_once n s = Some (v, r) \<Longrightarrow>
      length r < length s \<and> (\<forall>k\<ge>length s - length r. scan_once k s = Some (v, r))"
    and obj: "\<And>acc s v r. scan_object n acc s = Some (v, r) \<Longrightarrow>
      length r < length s \<and> (\<forall>k\<ge>length s - length r. scan_object k acc s = Some (v, r))"
    and res: "scan_object (Suc n) acc s = Some (v, r)"
  shows "length r < length s \<and> (\<forall>k\<ge>length s - length r. scan_object k acc s = Some (v, r))"
proof -
  from res obtain ks where s: "s = CHR 0x22 # ks"
    by (cases s) (auto split: if_splits)
  from res s obtain key r0 where k: "scanstring (length ks) ks = Some (key, r0)"
    by (auto split: option.splits)
  note k0 = scanstring_len [OF k]
  from res s k obtain r1 where w0: "skip_ws r0 = CHR '':'' # r1"
    by (auto split: list.splits if_splits)
  note l0 = skip_ws_Cons_len [OF w0]
  from res s k w0 obtain v1 r2 where o: "scan_once n (skip_ws r1) = Some (v1, r2)"
    by (auto split: option.splits)
  from once [OF o] have a: "length r2 < length (skip_ws r1)"
    and b: "\<And>k. length (skip_ws r1) - length r2 \<le> k \<Longrightarrow> scan_once k (skip_ws r1) = Some (v1, r2)"
    by auto
  note e1 = skip_ws_len [of r1]
  from res s k w0 o obtain x xs where w: "skip_ws r2 = x # xs" by (auto split: list.splits)
  note l = skip_ws_Cons_len [OF w]
  show ?thesis
  proof (cases "x = CHR ''}''")
    case True
    with res s k w0 o w have r: "v = JObj (dict_set key v1 acc)" "r = xs" by auto
    have "scan_object k acc s = Some (v, r)" if "length s - length r \<le> k" for k
    proof -
      from that a l r s k0 l0 e1 obtain j where j: "k = Suc j" "length (skip_ws r1) - length r2 \<le> j"
        by (cases k) auto
      from b [OF j(2)] show ?thesis using j s k w0 w True r by simp
    qed
    then show ?thesis using a l r s k0 l0 e1 by simp
  next
    case nc: False
    with res s k w0 o w have x: "x = CHR '',''"
      and t: "scan_object n (dict_set key v1 acc) (skip_ws xs) = Some (v, r)"
      by (auto split: if_splits)
    from obj [OF t] have c: "length r < length (skip_ws xs)"
      and d: "\<And>k. length (skip_ws xs) - length r \<le> k \<Longrightarrow>
                scan_object k (dict_set key v1 acc) (skip_ws xs) = Some (v, r)" by auto
    note e = skip_ws_len [of xs]
    have "scan_object k acc s = Some (v, r)" if "length s - length r \<le> k" for k
    proof -
      from that a l c e s k0 l0 e1 obtain j where j: "k = Suc j"
        "length (skip_ws r1) - length r2 \<le> j" "length (skip_ws xs) - length r \<le> j"
        by (cases k) auto
      from b [OF j(2)] d [OF j(3)] show ?thesis using j s k w0 w nc x by simp
    qed
    then show ?thesis using a l c e s k0 l0 e1 by simp
  qed
qed

lemma scan_fuel:
  "(\<forall>s v r. scan_once n s = Some (v, r) \<longrightarrow>
      length r < length s \<and> (\<forall>k\<ge>length s - length r. scan_once k s = Some (v, r)))
   \<and> (\<forall>acc s v r. scan_array n acc s = Some (v, r) \<longrightarrow>
      length r < length s \<and> (\<forall>k\<ge>length s - length r. scan_array k acc s = Some (v, r)))
   \<and> (\<forall>acc s v r. scan_object n acc s = Some (v, r) \<longrightarrow>
      length r < length s \<and> (\<forall>k\<ge>length s - length r. scan_object k acc s = Some (v, r)))"
proof (induction n)
  case 0
  show ?case by simp
next
  case (Suc n)
  then have once: "\<And>s v r. scan_once n s = Some (v, r) \<Longrightarrow>
      length r < length s \<and> (\<forall>k\<ge>length s - length r. scan_once k s = Some (v, r))"
    and arr: "\<And>acc s v r. scan_array n acc s = Some (v, r) \<Longrightarrow>
      length r < length s \<and> (\<forall>k\<ge>length s - length r. scan_array k acc s = Some (v, r))"
    and obj: "\<And>acc s v r. scan_object n acc s = Some (v, r) \<Longrightarrow>
      length r < length s \<and> (\<forall>k\<ge>length s - length r. scan_object k acc s = Some (v, r))"
    by blast+
  show ?case
    using scan_once_step [OF arr obj] scan_array_step [OF once arr] scan_object_step [OF once obj]
    by blast
qed

lemma json_loads_fuel:
  assumes "scan_once n (skip_ws s) = Some (v, r)"
  shows "scan_once (Suc (length s)) (skip_ws s) = Some (v, r)"
proof -
  from scan_fuel [of n] assms
  have "\<forall>k\<ge>length (skip_ws s) - length r. scan_once k (skip_ws s) = Some (v, r)" by blast
  moreover have "length (skip_ws s) - length r \<le> Suc (length s)"
    using skip_ws_len [of s] by linarith
  ultimately show ?thesis by blast
qed

lemma json_loads_any_fuel:
  assumes "scan_once n (skip_ws s) = Some (v, r)"
  shows "json_loads s = (if skip_ws r = [] then Some v else None)"
  using json_loads_fuel [OF assms] by (simp add: json_loads_def)

lemma json_loads_None_any_fuel:
  assumes "scan_once (Suc (length s)) (skip_ws s) = None"
  shows "scan_once n (skip_ws s) = None"
proof (cases "scan_once n (skip_ws s)")
  case None
  then show ?thesis .
next
  case (Some x)
  then obtain v r where "scan_once n (skip_ws s) = Some (v, r)" by (cases x) auto
  from json_loads_fuel [OF this] assms show ?thesis by simp
qed

section \<open>The response parser\<close>

lemma find_from_takeWhile:
  "find_from x s i = (if x \<in> set s then i + int (length (takeWhile (\<lambda>c. c \<noteq> x) s)) else - 1)"
  by (induction s arbitrary: i) auto

lemma str_find_takeWhile:
  "str_find x s = (if x \<in> set s then int (length (takeWhile (\<lambda>c. c \<noteq> x) s)) else - 1)"
  by (simp add: str_find_def find_from_takeWhile)

lemma str_rfind_takeWhile:
  "str_rfind x s =
     (if x \<in> set s then int (length s) - 1 - int (length (takeWhile (\<lambda>c. c \<noteq> x) (rev s))) else - 1)"
  by (simp add: str_rfind_def str_find_takeWhile Let_def)

lemma takeWhile_length_less: "x \<in> set s \<Longrightarrow> length (takeWhile (\<lambda>c. c \<noteq> x) s) < length s"
  by (induction s) auto

lemma dropWhile_as_drop: "dropWhile P s = drop (length (takeWhile P s)) s"
  by (induction s) auto

lemma dropWhile_mem: "x \<in> set (dropWhile (\<lambda>c. c \<noteq> y) s) \<Longrightarrow> x \<in> set s \<and> y \<in> set s"
  by (induction s) (auto split: if_splits)

text \<open>The last closing brace lies in the part after the first opening brace.\<close>

lemma span_inside:
  fixes s :: string
  assumes tr: "CHR ''}'' \<in> set (dropWhile (\<lambda>c. c \<noteq> CHR ''{'') s)"
  shows "str_find CHR ''{'' s \<ge> 0"
    and "str_rfind CHR ''}'' s + 1 > str_find CHR ''{'' s"
    and "slice s (str_find CHR ''{'' s) (str_rfind CHR ''}'' s + 1) = brace_span s"
proof -
  let ?L = "\<lambda>c. c \<noteq> CHR ''{''" and ?R = "\<lambda>c. c \<noteq> CHR ''}''"
  define t where "t = dropWhile ?L s"
  define p where "p = length (takeWhile ?L s)"
  define q where "q = length (takeWhile ?R (rev s))"
  have tr': "CHR ''}'' \<in> set t" using tr by (simp add: t_def)
  have mem: "CHR ''}'' \<in> set s \<and> CHR ''{'' \<in> set s"
    using dropWhile_mem [OF tr] .
  have s: "s = takeWhile ?L s @ t" by (simp add: t_def)
  have t_drop: "t = drop p s" by (simp add: t_def p_def dropWhile_as_drop)
  have len: "length s = p + length t"
    using arg_cong [OF s, of length] by (simp add: p_def)
  have revs: "rev s = rev t @ rev (takeWhile ?L s)"
    using arg_cong [OF s, of rev] by simp
  have "takeWhile ?R (rev t @ rev (takeWhile ?L s)) = takeWhile ?R (rev t)"
    by (rule takeWhile_append1 [of "CHR ''}''"]) (use tr' in simp_all)
  then have q: "q = length (takeWhile ?R (rev t))" by (simp add: q_def revs)
  have ql: "q < length t"
    unfolding q using tr' takeWhile_length_less [of "CHR ''}''" "rev t"] by simp
  have a: "str_find CHR ''{'' s = int p"
    using mem by (simp add: str_find_takeWhile p_def)
  have b: "str_rfind CHR ''}'' s + 1 = int (length s) - int q"
    using mem by (simp add: str_rfind_takeWhile q_def)
  show "str_find CHR ''{'' s \<ge> 0" by (simp add: a)
  show "str_rfind CHR ''}'' s + 1 > str_find CHR ''{'' s"
    unfolding a b using ql len by linarith
  have n: "nat (int (length s) - int q) - nat (int p) = length t - q"
    using ql len by linarith
  have "brace_span s = rev (dropWhile ?R (rev t))" by (simp add: brace_span_def t_def)
  also have "\<dots> = rev (drop q (rev t))"
    by (simp add: q dropWhile_as_drop [of ?R "rev t"])
  also have "\<dots> = take (length t - q) t" by (simp add: rev_drop)
  finally have "brace_span s = take (length t - q) t" .
  then show "slice s (str_find CHR ''{'' s) (str_rfind CHR ''}'' s + 1) = brace_span s"
    unfolding slice_def a b n by (simp add: t_drop)
qed

lemma span_outside:
  fixes s :: string
  assumes tr: "CHR ''}'' \<notin> set (dropWhile (\<lambda>c. c \<noteq> CHR ''{'') s)"
  shows "\<not> (str_find CHR ''{'' s \<ge> 0 \<and> str_rfind CHR ''}'' s + 1 > str_find CHR ''{'' s)"
    and "brace_span s = []"
proof -
  let ?L = "\<lambda>c. c \<noteq> CHR ''{''" and ?R = "\<lambda>c. c \<noteq> CHR ''}''"
  define t where "t = dropWhile ?L s"
  define p where "p = length (takeWhile ?L s)"
  define q where "q = length (takeWhile ?R (rev s))"
  have tr': "CHR ''}'' \<notin> set t" using tr by (simp add: t_def)
  have s: "s = takeWhile ?L s @ t" by (simp add: t_def)
  have len: "length s = p + length t"
    using arg_cong [OF s, of length] by (simp add: p_def)
  have revs: "rev s = rev t @ rev (takeWhile ?L s)"
    using arg_cong [OF s, of rev] by simp
  have "dropWhile ?R (rev t) = []" using tr' by (auto simp: dropWhile_eq_Nil_conv)
  then show "brace_span s = []" by (simp add: brace_span_def t_def)
  show "\<not> (str_find CHR ''{'' s \<ge> 0 \<and> str_rfind CHR ''}'' s + 1 > str_find CHR ''{'' s)"
  proof (cases "CHR ''{'' \<in> set s \<and> CHR ''}'' \<in> set s")
    case True
    have "takeWhile ?R (rev t @ rev (takeWhile ?L s)) = rev t @ takeWhile ?R (rev (takeWhile ?L s))"
      by (rule takeWhile_append2) (use tr' in auto)
    then have "q \<ge> length t" by (simp add: q_def revs)
    moreover have "str_find CHR ''{'' s = int p"
      using True by (simp add: str_find_takeWhile p_def)
    moreover have "str_rfind CHR ''}'' s + 1 = int (length s) - int q"
      using True by (simp add: str_rfind_takeWhile q_def)
    ultimately show ?thesis using len by linarith
  next
    case False
    then show ?thesis
      by (auto simp: str_find_takeWhile str_rfind_takeWhile)
  qed
qed

lemma brace_span_mem:
  "brace_span s \<noteq> [] \<longleftrightarrow> CHR ''}'' \<in> set (dropWhile (\<lambda>c. c \<noteq> CHR ''{'') s)"
  by (auto simp: brace_span_def dropWhile_eq_Nil_conv)

lemma parse_model_output_span:
  "parse_model_output reply =
     (if brace_span reply \<noteq> [] then decode_or_empty (brace_span reply)
      else decode_or_empty reply)"
proof (cases "CHR ''}'' \<in> set (dropWhile (\<lambda>c. c \<noteq> CHR ''{'') reply)")
  case True
  then have "brace_span reply \<noteq> []" by (simp add: brace_span_mem)
  then show ?thesis
    using span_inside [OF True]
    by (simp add: parse_model_output_def Let_def decode_or_empty_def)
next
  case False
  then have "brace_span reply = []" by (rule span_outside(2))
  then show ?thesis
    using span_outside(1) [OF False]
    by (auto simp: parse_model_output_def Let_def decode_or_empty_def)
qed

lemma scan_object_is_object: "scan_object n acc s = Some (v, r) \<Longrightarrow> is_object v"
proof (induction n arbitrary: acc s)
  case 0
  then show ?case by simp
next
  case (Suc n)
  then show ?case
    by (auto split: list.splits if_splits option.splits prod.splits)
qed

lemma scan_once_brace: "scan_once (Suc n) (CHR ''{'' # t) = Some (v, r) \<Longrightarrow> is_object v"
  by (auto split: list.splits if_splits dest: scan_object_is_object)

lemma json_loads_brace:
  assumes "json_loads (CHR ''{'' # t) = Some v" shows "is_object v"
proof -
  have w: "skip_ws (CHR ''{'' # t) = CHR ''{'' # t" by (simp add: skip_ws_def json_ws_def)
  from assms obtain r where "scan_once (Suc (length (CHR ''{'' # t))) (CHR ''{'' # t) = Some (v, r)"
    unfolding json_loads_def w by (auto split: option.splits if_splits)
  then show ?thesis by (rule scan_once_brace)
qed

lemma brace_span_hd: "brace_span s \<noteq> [] \<Longrightarrow> \<exists>t. brace_span s = CHR ''{'' # t"
proof -
  assume ne: "brace_span s \<noteq> []"
  define t where "t = dropWhile (\<lambda>c. c \<noteq> CHR ''{'') s"
  have tm: "CHR ''}'' \<in> set t" using ne by (simp add: brace_span_mem t_def)
  then have tne: "t \<noteq> []" by auto
  then have h: "hd t = CHR ''{''" using hd_dropWhile [of "\<lambda>c. c \<noteq> CHR ''{''" s] by (simp add: t_def)
  have "brace_span s = take (length t - length (takeWhile (\<lambda>c. c \<noteq> CHR ''}'') (rev t))) t"
    by (simp add: brace_span_def t_def [symmetric] dropWhile_as_drop [of _ "rev t"] rev_drop)
  moreover have "length (takeWhile (\<lambda>c. c \<noteq> CHR ''}'') (rev t)) < length t"
    using tm takeWhile_length_less [of "CHR ''}''" "rev t"] by simp
  ultimately obtain k where "brace_span s = take (Suc k) t"
    by (metis Suc_diff_Suc)
  then show ?thesis using tne h by (cases t) auto
qed

lemma parse_model_output_braces: "brace_span reply \<noteq> [] \<Longrightarrow> is_object (parse_model_output reply)"
proof -
  assume ne: "brace_span reply \<noteq> []"
  then obtain t where t: "brace_span reply = CHR ''{'' # t" using brace_span_hd by blast
  show ?thesis
  proof (cases "json_loads (CHR ''{'' # t)")
    case None
    then show ?thesis using ne t by (simp add: parse_model_output_span decode_or_empty_def)
  next
    case (Some v)
    then show ?thesis using ne t json_loads_brace [OF Some]
      by (simp add: parse_model_output_span decode_or_empty_def)
  qed
qed



text \<open>
  C4. The parser returns a value for every reply, and a reply with a brace-delimited part
  gives a mapping (\<open>parse_model_output_braces\<close>). A reply without braces that is valid
  JSON is returned as decoded, whatever it is: the reply \<open>123\<close> gives the integer 123,
  not a mapping.
\<close>

theorem parse_model_output_not_mapping:
  "parse_model_output ''123'' = JInt 123 \<and> \<not> is_object (parse_model_output ''123'')"
  by code_simp

lemma spec_reply_example:
  "parse_model_output (''Sure! ```json'' @ [CHR 0x0A] @ ''{\"a\":1}'' @ [CHR 0x0A] @ ''```'') = JObj [(''a'', JInt 1)]"
  by code_simp

section \<open>Date normalization\<close>










section \<open>The per-row workflow\<close>














end
